theory Spec2Isabelle
  imports Main "HOL-Library.AList"
begin

section \<open>The plugin loader (mythril/laser/plugin/loader.py)\<close>

text \<open>
  The module's logger. Every \<^verbatim>\<open>log.info\<close> and \<^verbatim>\<open>log.warning\<close> of the source is a
  record appended to the output of the operation that emits it.
\<close>

datatype level = INFO | WARNING

type_synonym log_record = "level \<times> string"

text \<open>
  A \<^verbatim>\<open>PluginBuilder\<close> (its class is imported by the loader, not defined by it): the
  loader reads \<^verbatim>\<open>plugin_name\<close>, reads and writes \<^verbatim>\<open>enabled\<close>, and calls the builder to
  obtain a plugin; \<open>build\<close> is the plugin that the call \<^verbatim>\<open>plugin_builder()\<close> constructs.
\<close>

record 'p PluginBuilder =
  plugin_name :: string
  enabled :: bool
  build :: 'p

text \<open>
  \<^verbatim>\<open>self.laser_plugin_builders\<close> is a Python dict: an association list in insertion order.
  \<^verbatim>\<open>k in d\<close> is membership among the keys, \<^verbatim>\<open>d[k] = v\<close> is \<open>AList.update\<close> (the entry is
  replaced in place, or added last), \<^verbatim>\<open>d[k].enabled = True\<close> is \<open>AList.map_entry\<close>.
\<close>

record 'p LaserPluginLoader =
  laser_plugin_builders :: "(string \<times> 'p PluginBuilder) list"

definition LaserPluginLoader_init :: "'p LaserPluginLoader" where
  "LaserPluginLoader_init = \<lparr>laser_plugin_builders = []\<rparr>"

definition load ::
  "'p LaserPluginLoader \<Rightarrow> 'p PluginBuilder \<Rightarrow> log_record list \<times> 'p LaserPluginLoader" where
  "load self plugin_builder =
     (let logged = [(INFO, ''Loading laser plugin: '' @ plugin_name plugin_builder)] in
      if plugin_name plugin_builder \<in> fst ` set (laser_plugin_builders self)
      then (logged @ [(WARNING, ''Laser plugin with name '' @ plugin_name plugin_builder
                                  @ '' was already loaded, skipping...'')],
            self)
      else (logged,
            self\<lparr>laser_plugin_builders :=
                   AList.update (plugin_name plugin_builder) plugin_builder
                     (laser_plugin_builders self)\<rparr>))"

definition is_enabled :: "'p LaserPluginLoader \<Rightarrow> string \<Rightarrow> bool" where
  "is_enabled self name =
     (case map_of (laser_plugin_builders self) name of
        None \<Rightarrow> False
      | Some plugin_builder \<Rightarrow> enabled plugin_builder)"

text \<open>
  What a call hands back to its caller: \<open>Inl\<close> an exception that was raised, \<open>Inr\<close> the
  value that was returned. \<^verbatim>\<open>enable\<close> has no \<^verbatim>\<open>raise\<close>; on an unknown name it executes
  \<^verbatim>\<open>return ValueError(...)\<close>, so the exception object is an ordinary return value.
\<close>

datatype exn = ValueError string

datatype pyvalue = PyNone | ExceptionObject exn

definition enable ::
  "'p LaserPluginLoader \<Rightarrow> string \<Rightarrow> (exn + pyvalue) \<times> 'p LaserPluginLoader" where
  "enable self name =
     (if name \<notin> fst ` set (laser_plugin_builders self)
      then (Inr (ExceptionObject (ValueError (''Plugin with name: '' @ name @ '' was not loaded''))),
            self)
      else (Inr PyNone,
            self\<lparr>laser_plugin_builders :=
                   AList.map_entry name (\<lambda>plugin_builder. plugin_builder\<lparr>enabled := True\<rparr>)
                     (laser_plugin_builders self)\<rparr>))"

text \<open>
  \<^verbatim>\<open>not with_plugins\<close> for an \<^verbatim>\<open>Optional[List[str]]\<close>: Python's truth value of \<^verbatim>\<open>None\<close> and
  of the empty list is false, of every other list true.
\<close>

fun py_not :: "string list option \<Rightarrow> bool" where
  "py_not None = True"
| "py_not (Some ws) = (ws = [])"

text \<open>\<^verbatim>\<open>plugin_name in with_plugins\<close>, evaluated only where \<^verbatim>\<open>with_plugins\<close> is a list.\<close>

fun py_in :: "string \<Rightarrow> string list option \<Rightarrow> bool" where
  "py_in name None = False"
| "py_in name (Some ws) = (name \<in> set ws)"

text \<open>
  The loop of \<^verbatim>\<open>instrument_virtual_machine\<close> over \<^verbatim>\<open>laser_plugin_builders.items()\<close>.
  \<open>initialize\<close> is \<^verbatim>\<open>plugin.initialize(symbolic_vm)\<close>, the plugin's effect on the virtual
  machine; the result is the log and the instrumented machine.
\<close>

fun instrument_items ::
  "('p \<Rightarrow> 'vm \<Rightarrow> 'vm) \<Rightarrow> string list option \<Rightarrow> (string \<times> 'p PluginBuilder) list
     \<Rightarrow> 'vm \<Rightarrow> log_record list \<times> 'vm" where
  "instrument_items initialize with_plugins [] symbolic_vm = ([], symbolic_vm)"
| "instrument_items initialize with_plugins ((name, plugin_builder) # items) symbolic_vm =
     (let is_on = (if py_not with_plugins then enabled plugin_builder
                   else py_in name with_plugins)
      in if \<not> is_on then instrument_items initialize with_plugins items symbolic_vm
         else (let plugin = build plugin_builder;
                   (logged, vm') =
                      instrument_items initialize with_plugins items (initialize plugin symbolic_vm)
               in ((INFO, ''Instrumenting symbolic vm with plugin: '' @ name) # logged, vm')))"

definition instrument_virtual_machine ::
  "('p \<Rightarrow> 'vm \<Rightarrow> 'vm) \<Rightarrow> 'p LaserPluginLoader \<Rightarrow> 'vm \<Rightarrow> string list option
     \<Rightarrow> log_record list \<times> 'vm" where
  "instrument_virtual_machine initialize self symbolic_vm with_plugins =
     instrument_items initialize with_plugins (laser_plugin_builders self) symbolic_vm"

section \<open>The multiple-sends detector (mythril/analysis/modules/multiple_sends.py)\<close>

subsection \<open>List objects\<close>

text \<open>
  \<^verbatim>\<open>call_offsets\<close> is a mutable Python list reached through references, and whether two
  annotations share one list decides what an append does. The store holds the list
  objects, a reference is a position in it: \<^verbatim>\<open>[]\<close> and \<^verbatim>\<open>copy(xs)\<close> allocate a new object
  at the end of the store, \<^verbatim>\<open>xs.append(x)\<close> updates the object in place. References held by
  a running program always point into the store.
\<close>

type_synonym ref = nat

type_synonym store = "int list list"

definition new_list :: "int list \<Rightarrow> store \<Rightarrow> ref \<times> store" where
  "new_list xs h = (length h, h @ [xs])"

definition copy_list :: "ref \<Rightarrow> store \<Rightarrow> ref \<times> store" where
  "copy_list r h = new_list (h ! r) h"

definition list_append :: "ref \<Rightarrow> int \<Rightarrow> store \<Rightarrow> store" where
  "list_append r x h = h[r := h ! r @ [x]]"

subsection \<open>MultipleSendsAnnotation\<close>

record MultipleSendsAnnotation =
  call_offsets :: ref

text \<open>\<^verbatim>\<open>__init__\<close>: \<^verbatim>\<open>self.call_offsets = []\<close>.\<close>

definition MultipleSendsAnnotation_init :: "store \<Rightarrow> MultipleSendsAnnotation \<times> store" where
  "MultipleSendsAnnotation_init h =
     (let (r, h') = new_list [] h in (\<lparr>call_offsets = r\<rparr>, h'))"

text \<open>
  \<^verbatim>\<open>__copy__\<close>: a new annotation is constructed (with its own empty list), then its field
  is rebound to \<^verbatim>\<open>copy(self.call_offsets)\<close>.
\<close>

definition MultipleSendsAnnotation_copy ::
  "MultipleSendsAnnotation \<Rightarrow> store \<Rightarrow> MultipleSendsAnnotation \<times> store" where
  "MultipleSendsAnnotation_copy self h =
     (let (result, h1) = MultipleSendsAnnotation_init h;
          (r, h2) = copy_list (call_offsets self) h1
      in (result\<lparr>call_offsets := r\<rparr>, h2))"

subsection \<open>The execution state the detector reads\<close>

text \<open>
  \<^verbatim>\<open>GlobalState\<close> and the objects below it are imported, not defined, by the detector;
  the records hold the attributes that \<^verbatim>\<open>_execute\<close> and \<^verbatim>\<open>_analyze_state\<close> read.
  \<open>'c\<close> is the type of \<^verbatim>\<open>mstate.constraints\<close>.
\<close>

record Instruction =
  opcode :: string
  address :: int

record 'c MachineState =
  constraints :: 'c
  min_gas_used :: int
  max_gas_used :: int

record Account =
  contract_name :: string

record Disassembly =
  bytecode :: string

record Environment =
  active_account :: Account
  active_function_name :: string
  code :: Disassembly

text \<open>
  Modelled from the spec: the state's annotation collection and the lookup
  \<^verbatim>\<open>get_or_create_annotation\<close> of \<^verbatim>\<open>mythril.analysis.analysis_module_helpers\<close>, which is
  not among the sources. The spec gives a state at most one annotation of a kind, so the
  state has one slot for the call-offset annotation; the lookup returns the annotation in
  the slot, or constructs one, attaches it to the state and returns it.
  \<open>current_instruction\<close> is what \<^verbatim>\<open>state.get_current_instruction()\<close> returns.
\<close>

record 'c GlobalState =
  current_instruction :: Instruction
  mstate :: "'c MachineState"
  environment :: Environment
  annotations :: "MultipleSendsAnnotation option"

definition get_current_instruction :: "'c GlobalState \<Rightarrow> Instruction" where
  "get_current_instruction state = current_instruction state"

definition get_or_create_annotation ::
  "'c GlobalState \<Rightarrow> store \<Rightarrow> MultipleSendsAnnotation \<times> 'c GlobalState \<times> store" where
  "get_or_create_annotation state h =
     (case annotations state of
        Some annotation \<Rightarrow> (annotation, state, h)
      | None \<Rightarrow>
          (let (annotation, h') = MultipleSendsAnnotation_init h
           in (annotation, state\<lparr>annotations := Some annotation\<rparr>, h')))"

subsection \<open>Issues and the solver\<close>

text \<open>
  An \<^verbatim>\<open>Issue\<close> as \<^verbatim>\<open>_analyze_state\<close> constructs it: one field for each keyword argument.
  \<open>'tx\<close> is the type of one transaction of a transaction sequence.
\<close>

record 'tx Issue =
  contract :: string
  function_name :: string
  address :: int
  swc_id :: string
  bytecode :: string
  title :: string
  severity :: string
  description_head :: string
  description_tail :: string
  gas_used :: "int \<times> int"
  transaction_sequence :: "'tx list"

text \<open>
  \<^verbatim>\<open>get_transaction_sequence\<close> either returns a transaction sequence or raises
  \<^verbatim>\<open>UnsatError\<close>. The solver is an external service whose answer may differ from one call
  to the next (it also gives up on a timeout), so a call takes and returns the solver's
  state \<open>'s\<close>. The detector's two imported names are its parameters.
\<close>

datatype UnsatError = UnsatError

record ('c, 's, 'tx) collaborators =
  MULTIPLE_SENDS :: string
  get_transaction_sequence ::
    "'c GlobalState \<Rightarrow> 'c \<Rightarrow> 's \<Rightarrow> (UnsatError + 'tx list) \<times> 's"

subsection \<open>MultipleSendsModule\<close>

text \<open>
  The module's own state: the opcodes it hooks, and \<^verbatim>\<open>_cache\<close> and \<^verbatim>\<open>_issues\<close> of the
  base class, empty when the module is constructed.
\<close>

record 'tx MultipleSendsModule =
  pre_hooks :: "string list"
  cache :: "int set"
  issues :: "'tx Issue list"

definition MultipleSendsModule_init :: "'tx MultipleSendsModule" where
  "MultipleSendsModule_init =
     \<lparr>pre_hooks = [''CALL'', ''DELEGATECALL'', ''STATICCALL'', ''CALLCODE'', ''RETURN'', ''STOP''],
      cache = {},
      issues = []\<rparr>"

definition make_issue ::
  "('c, 's, 'tx) collaborators \<Rightarrow> 'c GlobalState \<Rightarrow> int \<Rightarrow> 'tx list \<Rightarrow> 'tx Issue" where
  "make_issue ext state offset ts =
     \<lparr>contract = contract_name (active_account (environment state)),
      function_name = active_function_name (environment state),
      address = offset,
      swc_id = MULTIPLE_SENDS ext,
      bytecode = Disassembly.bytecode (code (environment state)),
      title = ''Multiple Calls in a Single Transaction'',
      severity = ''Low'',
      description_head = ''Multiple calls are executed in the same transaction.'',
      description_tail =
        ''This call is executed after a previous call in the same transaction. ''
        @ ''Try to isolate each call, transfer or send into its own transaction.'',
      gas_used = (min_gas_used (mstate state), max_gas_used (mstate state)),
      transaction_sequence = ts\<rparr>"

text \<open>
  The loop \<^verbatim>\<open>for offset in call_offsets[1:]\<close>: \<^verbatim>\<open>UnsatError\<close> is caught and the loop
  continues, the first transaction sequence ends it with \<^verbatim>\<open>return [issue]\<close>, and a loop
  that runs out falls through to \<^verbatim>\<open>return []\<close>.
\<close>

fun scan_offsets ::
  "('c, 's, 'tx) collaborators \<Rightarrow> 'c GlobalState \<Rightarrow> int list \<Rightarrow> 's \<Rightarrow> 'tx Issue list \<times> 's" where
  "scan_offsets ext state [] s = ([], s)"
| "scan_offsets ext state (offset # rest) s =
     (case get_transaction_sequence ext state (constraints (mstate state)) s of
        (Inl UnsatError, s') \<Rightarrow> scan_offsets ext state rest s'
      | (Inr ts, s') \<Rightarrow> ([make_issue ext state offset ts], s'))"

definition analyze_state ::
  "('c, 's, 'tx) collaborators \<Rightarrow> 'c GlobalState \<Rightarrow> store \<Rightarrow> 's
     \<Rightarrow> 'tx Issue list \<times> 'c GlobalState \<times> store \<times> 's" where
  "analyze_state ext state0 h0 s =
     (let (annotation, state, h) = get_or_create_annotation state0 h0;
          instruction = get_current_instruction state;
          offsets = call_offsets annotation
      in if opcode instruction \<in> set [''CALL'', ''DELEGATECALL'', ''STATICCALL'', ''CALLCODE'']
         then ([], state,
               list_append offsets (Instruction.address (get_current_instruction state)) h, s)
         else (let (found, s') = scan_offsets ext state (drop 1 (h ! offsets)) s
               in (found, state, h, s')))"

text \<open>
  \<^verbatim>\<open>_execute\<close>: the cache is asked for the address of the current instruction; the
  addresses of the issues found are added to it, and the issues to \<^verbatim>\<open>_issues\<close>.
\<close>

definition execute ::
  "('c, 's, 'tx) collaborators \<Rightarrow> 'tx MultipleSendsModule \<Rightarrow> 'c GlobalState \<Rightarrow> store \<Rightarrow> 's
     \<Rightarrow> 'tx MultipleSendsModule \<times> 'c GlobalState \<times> store \<times> 's" where
  "execute ext self state h s =
     (if Instruction.address (get_current_instruction state) \<in> cache self
      then (self, state, h, s)
      else (let (found, state', h', s') = analyze_state ext state h s;
                self' = fold (\<lambda>issue m. m\<lparr>cache := insert (address issue) (cache m)\<rparr>) found self
            in (self'\<lparr>issues := issues self' @ found\<rparr>, state', h', s')))"

subsection \<open>The solver's answers along one scan\<close>

text \<open>
  Every query of one scan has the same arguments, the state and its constraints; only the
  solver's own state moves on. \<open>solver_after\<close> is the solver's state after \<open>n\<close> such
  queries, and \<open>nth_answer\<close> what it answers to the next one.
\<close>

fun solver_after ::
  "('c, 's, 'tx) collaborators \<Rightarrow> 'c GlobalState \<Rightarrow> nat \<Rightarrow> 's \<Rightarrow> 's" where
  "solver_after ext state 0 s = s"
| "solver_after ext state (Suc n) s =
     solver_after ext state n
       (snd (get_transaction_sequence ext state (constraints (mstate state)) s))"

definition nth_answer ::
  "('c, 's, 'tx) collaborators \<Rightarrow> 'c GlobalState \<Rightarrow> nat \<Rightarrow> 's \<Rightarrow> UnsatError + 'tx list" where
  "nth_answer ext state n s =
     fst (get_transaction_sequence ext state (constraints (mstate state))
            (solver_after ext state n s))"

subsection \<open>The scenarios of the specification\<close>

text \<open>
  A state of the contract \<open>Wallet\<close> at the instruction \<open>op\<close> at \<open>addr\<close>, whose call-offset
  annotation is the list object at reference \<open>0\<close>; a solver that finds every query
  satisfiable, one that finds its first query infeasible and the later ones satisfiable,
  and one that finds every query satisfiable and returns the empty transaction sequence
  as its model. The solvers' state counts the queries made.
\<close>

definition scenario_state :: "string \<Rightarrow> int \<Rightarrow> unit GlobalState" where
  "scenario_state op addr =
     \<lparr>current_instruction = \<lparr>opcode = op, Instruction.address = addr\<rparr>,
      mstate = \<lparr>constraints = (), min_gas_used = 21000, max_gas_used = 50000\<rparr>,
      environment =
        \<lparr>active_account = \<lparr>contract_name = ''Wallet''\<rparr>,
         active_function_name = ''withdraw()'',
         code = \<lparr>Disassembly.bytecode = ''6080''\<rparr>\<rparr>,
      annotations = Some \<lparr>call_offsets = 0\<rparr>\<rparr>"

definition sat_solver :: "(unit, nat, string) collaborators" where
  "sat_solver =
     \<lparr>MULTIPLE_SENDS = ''113'',
      get_transaction_sequence = (\<lambda>state cs n. (Inr [''tx''], Suc n))\<rparr>"

definition unsat_once_solver :: "(unit, nat, string) collaborators" where
  "unsat_once_solver =
     \<lparr>MULTIPLE_SENDS = ''113'',
      get_transaction_sequence =
        (\<lambda>state cs n. (if n = 0 then Inl UnsatError else Inr [''tx''], Suc n))\<rparr>"


section \<open>The issue annotation (mythril/analysis/issue_annotation.py)\<close>

text \<open>
  \<open>'b\<close> is the type of a condition (the solver's \<^verbatim>\<open>Bool\<close>), \<open>'d\<close> of the detector.
\<close>

record ('b, 'tx, 'd) IssueAnnotation =
  conditions :: "'b list"
  issue :: "'tx Issue"
  detector :: 'd

definition IssueAnnotation_init ::
  "'b list \<Rightarrow> 'tx Issue \<Rightarrow> 'd \<Rightarrow> ('b, 'tx, 'd) IssueAnnotation" where
  "IssueAnnotation_init conds iss det = \<lparr>conditions = conds, issue = iss, detector = det\<rparr>"

definition persist_to_world_state :: "('b, 'tx, 'd) IssueAnnotation \<Rightarrow> bool" where
  "persist_to_world_state self = True"

definition persist_over_calls :: "('b, 'tx, 'd) IssueAnnotation \<Rightarrow> bool" where
  "persist_over_calls self = True"

section \<open>Properties of the plugin loader\<close>

subsection \<open>Loading a name twice\<close>

lemma load_keeps_distinct:
  "distinct (map fst (laser_plugin_builders self))
     \<Longrightarrow> distinct (map fst (laser_plugin_builders (snd (load self plugin_builder))))"
  by (simp add: load_def Let_def AList.distinct_update)

lemma enable_keeps_distinct:
  "distinct (map fst (laser_plugin_builders self))
     \<Longrightarrow> distinct (map fst (laser_plugin_builders (snd (enable self name))))"
  by (simp add: enable_def AList.distinct_map_entry)

text \<open>
  C6: a second \<open>load\<close> with a builder of the same name leaves the loader as the first
  \<open>load\<close> left it: the registry is the same one (so of the same size), the name is still
  bound to the first builder when the first call registered it, and the second call only
  logs its two lines and returns.
\<close>

theorem load_twice_keeps_first:
  assumes "plugin_name second = plugin_name first"
  shows "snd (load (snd (load self first)) second) = snd (load self first)
       \<and> length (laser_plugin_builders (snd (load (snd (load self first)) second)))
           = length (laser_plugin_builders (snd (load self first)))
       \<and> (plugin_name first \<notin> fst ` set (laser_plugin_builders self) \<longrightarrow>
            map_of (laser_plugin_builders (snd (load (snd (load self first)) second)))
              (plugin_name first) = Some first)
       \<and> fst (load (snd (load self first)) second) =
           [(INFO, ''Loading laser plugin: '' @ plugin_name second),
            (WARNING, ''Laser plugin with name '' @ plugin_name second
                        @ '' was already loaded, skipping...'')]"
  using assms
  by (auto simp add: load_def Let_def AList.dom_update AList.update_conv')

theorem load_twice_keeps_first_witness:
  "plugin_name \<lparr>plugin_name = ''coverage'', enabled = False, build = (2::nat)\<rparr>
     = plugin_name \<lparr>plugin_name = ''coverage'', enabled = True, build = (1::nat)\<rparr>
   \<and> ''coverage'' \<notin> fst ` set (laser_plugin_builders (LaserPluginLoader_init :: nat LaserPluginLoader))
   \<and> map_of (laser_plugin_builders
        (snd (load (snd (load LaserPluginLoader_init
                      \<lparr>plugin_name = ''coverage'', enabled = True, build = (1::nat)\<rparr>))
                \<lparr>plugin_name = ''coverage'', enabled = False, build = 2\<rparr>)))
        ''coverage''
      = Some \<lparr>plugin_name = ''coverage'', enabled = True, build = 1\<rparr>
   \<and> length (laser_plugin_builders
        (snd (load (snd (load LaserPluginLoader_init
                      \<lparr>plugin_name = ''coverage'', enabled = True, build = (1::nat)\<rparr>))
                \<lparr>plugin_name = ''coverage'', enabled = False, build = 2\<rparr>))) = 1"
  using load_twice_keeps_first
    [where first = "\<lparr>plugin_name = ''coverage'', enabled = True, build = (1::nat)\<rparr>"
       and second = "\<lparr>plugin_name = ''coverage'', enabled = False, build = (2::nat)\<rparr>"
       and self = "LaserPluginLoader_init"]
  by (simp add: LaserPluginLoader_init_def load_def)

subsection \<open>Enabling an unknown name\<close>

lemma enable_never_raises: "\<exists>v. fst (enable self name) = Inr v"
  by (simp add: enable_def)

lemma enable_unknown_keeps_registry:
  "name \<notin> fst ` set (laser_plugin_builders self) \<Longrightarrow> snd (enable self name) = self"
  by (simp add: enable_def)

text \<open>
  C2: \<open>enable\<close> on the empty registry with the name \<open>coverage\<close>. The registry is
  unchanged, but the call does not fail: it returns, and the value it returns is the
  \<^verbatim>\<open>ValueError\<close> object that the source constructs and does not raise.
\<close>

theorem enable_unknown_returns_exception_object:
  "enable (LaserPluginLoader_init :: nat LaserPluginLoader) ''coverage''
     = (Inr (ExceptionObject (ValueError ''Plugin with name: coverage was not loaded'')),
        LaserPluginLoader_init)"
  by (simp add: enable_def LaserPluginLoader_init_def)

subsection \<open>Instrumenting the virtual machine\<close>

lemma instrument_items_filter:
  "instrument_items initialize with_plugins items vm =
     (map (\<lambda>(name, b). (INFO, ''Instrumenting symbolic vm with plugin: '' @ name))
          (filter (\<lambda>(name, b). if py_not with_plugins then enabled b
                                 else py_in name with_plugins) items),
      fold (\<lambda>(name, b). initialize (build b))
          (filter (\<lambda>(name, b). if py_not with_plugins then enabled b
                                 else py_in name with_plugins) items) vm)"
  by (induction items arbitrary: vm) (auto simp add: Let_def split: prod.splits)

lemma instrumented_iff:
  assumes "distinct (map fst items)" and "map_of items name = Some b"
  shows "(INFO, ''Instrumenting symbolic vm with plugin: '' @ name)
           \<in> set (fst (instrument_items initialize with_plugins items vm))
         \<longleftrightarrow> (if py_not with_plugins then enabled b else py_in name with_plugins)"
proof -
  let ?on = "\<lambda>(name, b). if py_not with_plugins then enabled b else py_in name with_plugins"
  have mem: "(name, b) \<in> set items"
    using assms(2) by (rule map_of_SomeD)
  have uniq: "b' = b" if "(name, b') \<in> set items" for b'
    using assms that by simp
  have "(INFO, ''Instrumenting symbolic vm with plugin: '' @ name)
           \<in> set (fst (instrument_items initialize with_plugins items vm))
        \<longleftrightarrow> (\<exists>b'. (name, b') \<in> set items \<and> ?on (name, b'))"
    unfolding instrument_items_filter by (simp add: image_iff Bex_def split_beta)
  also have "\<dots> \<longleftrightarrow> ?on (name, b)"
    using mem uniq by blast
  finally show ?thesis by simp
qed

lemma effective_flag:
  "(if py_not with_plugins then enabled b else py_in name with_plugins)
     = (case with_plugins of
          None \<Rightarrow> enabled b
        | Some ws \<Rightarrow> if ws = [] then enabled b else name \<in> set ws)"
  by (cases with_plugins) simp_all

text \<open>
  What the loop does for every argument: for a registered plugin (the keys of a dict are
  distinct), the loader logs, builds and initializes it if and only if its name is in a
  non-empty override list, whatever its stored flag is; without an override list, and
  also with the empty one, if and only if the stored flag is true. The machine that
  results is the given one after \<open>initialize\<close> of exactly these plugins, in the order of
  registration.
\<close>

lemma instrument_override_or_flag:
  assumes "distinct (map fst (laser_plugin_builders self))"
    and "map_of (laser_plugin_builders self) name = Some b"
  shows "((INFO, ''Instrumenting symbolic vm with plugin: '' @ name)
            \<in> set (fst (instrument_virtual_machine initialize self vm with_plugins))
          \<longleftrightarrow> (case with_plugins of
                 None \<Rightarrow> enabled b
               | Some ws \<Rightarrow> if ws = [] then enabled b else name \<in> set ws))
       \<and> snd (instrument_virtual_machine initialize self vm with_plugins)
           = fold (\<lambda>(n, pb). initialize (build pb))
               (filter (\<lambda>(n, pb). case with_plugins of
                                     None \<Rightarrow> enabled pb
                                   | Some ws \<Rightarrow> if ws = [] then enabled pb else n \<in> set ws)
                  (laser_plugin_builders self)) vm"
proof
  show "(INFO, ''Instrumenting symbolic vm with plugin: '' @ name)
            \<in> set (fst (instrument_virtual_machine initialize self vm with_plugins))
          \<longleftrightarrow> (case with_plugins of
                 None \<Rightarrow> enabled b
               | Some ws \<Rightarrow> if ws = [] then enabled b else name \<in> set ws)"
    unfolding instrument_virtual_machine_def
    using instrumented_iff [OF assms] by (simp only: effective_flag)
next
  show "snd (instrument_virtual_machine initialize self vm with_plugins)
           = fold (\<lambda>(n, pb). initialize (build pb))
               (filter (\<lambda>(n, pb). case with_plugins of
                                     None \<Rightarrow> enabled pb
                                   | Some ws \<Rightarrow> if ws = [] then enabled pb else n \<in> set ws)
                  (laser_plugin_builders self)) vm"
    by (simp add: instrument_virtual_machine_def instrument_items_filter effective_flag)
qed

lemma instrument_override_or_flag_example:
  "distinct (map fst
      [(''a'', \<lparr>plugin_name = ''a'', enabled = False, build = (1::nat)\<rparr>),
       (''b'', \<lparr>plugin_name = ''b'', enabled = True, build = 2\<rparr>)])
   \<and> map_of
      [(''a'', \<lparr>plugin_name = ''a'', enabled = False, build = (1::nat)\<rparr>),
       (''b'', \<lparr>plugin_name = ''b'', enabled = True, build = 2\<rparr>)] ''a''
      = Some \<lparr>plugin_name = ''a'', enabled = False, build = 1\<rparr>
   \<and> (INFO, ''Instrumenting symbolic vm with plugin: a'')
      \<in> set (fst (instrument_virtual_machine (#)
           \<lparr>laser_plugin_builders =
              [(''a'', \<lparr>plugin_name = ''a'', enabled = False, build = (1::nat)\<rparr>),
               (''b'', \<lparr>plugin_name = ''b'', enabled = True, build = 2\<rparr>)]\<rparr>
           [] (Some [''a''])))
   \<and> snd (instrument_virtual_machine (#)
           \<lparr>laser_plugin_builders =
              [(''a'', \<lparr>plugin_name = ''a'', enabled = False, build = (1::nat)\<rparr>),
               (''b'', \<lparr>plugin_name = ''b'', enabled = True, build = 2\<rparr>)]\<rparr>
           [] (Some [''a''])) = [1]"
  using instrument_override_or_flag
    [where self = "\<lparr>laser_plugin_builders =
              [(''a'', \<lparr>plugin_name = ''a'', enabled = False, build = (1::nat)\<rparr>),
               (''b'', \<lparr>plugin_name = ''b'', enabled = True, build = 2\<rparr>)]\<rparr>"
       and name = "''a''"
       and b = "\<lparr>plugin_name = ''a'', enabled = False, build = (1::nat)\<rparr>"
       and initialize = "(#)" and vm = "[]" and with_plugins = "Some [''a'']"]
  by simp

text \<open>
  C3: \<open>instrument_virtual_machine\<close> with the empty list as its explicit override list,
  on a registry that holds the plugin \<open>p\<close> with stored flag true. The docstring has the
  list override the stored flags and load the plugins in the list, so no plugin is to be
  instrumented; the guard \<^verbatim>\<open>if not with_plugins\<close> takes the empty list for no list, and
  \<open>p\<close> is logged, built and initialized although its name is not in the list.
\<close>

theorem instrument_empty_override_uses_stored_flags:
  "(INFO, ''Instrumenting symbolic vm with plugin: p'')
      \<in> set (fst (instrument_virtual_machine (#)
           \<lparr>laser_plugin_builders =
              [(''p'', \<lparr>plugin_name = ''p'', enabled = True, build = (7::nat)\<rparr>)]\<rparr>
           [] (Some [])))
   \<and> snd (instrument_virtual_machine (#)
           \<lparr>laser_plugin_builders =
              [(''p'', \<lparr>plugin_name = ''p'', enabled = True, build = (7::nat)\<rparr>)]\<rparr>
           [] (Some [])) = [7]
   \<and> ''p'' \<notin> set ([] :: string list)"
  by (simp add: instrument_virtual_machine_def)

section \<open>Properties of the issue annotation\<close>

text \<open>
  C9: whatever conditions, issue and detector an \<open>IssueAnnotation\<close> holds, both
  \<open>persist_to_world_state\<close> and \<open>persist_over_calls\<close> answer \<open>True\<close>.
\<close>

theorem issue_annotation_always_persists:
  "persist_to_world_state (IssueAnnotation_init conds iss det)
   \<and> persist_over_calls (IssueAnnotation_init conds iss det)
   \<and> persist_to_world_state a \<and> persist_over_calls a"
  by (simp add: persist_to_world_state_def persist_over_calls_def)

section \<open>Properties of the multiple-sends detector\<close>

subsection \<open>Copying the annotation\<close>

lemma fold_list_append:
  "r < length h \<Longrightarrow> fold (list_append r) xs h = h[r := h ! r @ xs]"
  by (induction xs arbitrary: h) (simp_all add: list_append_def)

text \<open>
  C8: the copy of an annotation \<open>a\<close> holds a reference that did not exist before the copy,
  to a list equal to \<open>a\<close>'s; the copy leaves \<open>a\<close>'s list as it was; and appending any
  offsets \<open>xs\<close> afterwards to one of the two lists extends that list and leaves the other
  one unchanged.
\<close>

theorem copy_independent:
  assumes "call_offsets a < length h"
    and "MultipleSendsAnnotation_copy a h = (result, h')"
  shows "h' ! call_offsets result = h ! call_offsets a
       \<and> h' ! call_offsets a = h ! call_offsets a
       \<and> call_offsets result \<noteq> call_offsets a
       \<and> length h \<le> call_offsets result \<and> call_offsets result < length h'
       \<and> fold (list_append (call_offsets a)) xs h' ! call_offsets a = h ! call_offsets a @ xs
       \<and> fold (list_append (call_offsets a)) xs h' ! call_offsets result = h ! call_offsets a
       \<and> fold (list_append (call_offsets result)) xs h' ! call_offsets result
           = h ! call_offsets a @ xs
       \<and> fold (list_append (call_offsets result)) xs h' ! call_offsets a = h ! call_offsets a"
proof -
  from assms have r: "call_offsets result = Suc (length h)"
    and h': "h' = h @ [[], h ! call_offsets a]"
    by (auto simp add: MultipleSendsAnnotation_copy_def MultipleSendsAnnotation_init_def
        copy_list_def new_list_def nth_append)
  show ?thesis using assms(1)
    by (simp add: r h' fold_list_append nth_append)
qed

theorem copy_independent_witness:
  "call_offsets \<lparr>call_offsets = 0\<rparr> < length [[10, 20 :: int]]
   \<and> MultipleSendsAnnotation_copy \<lparr>call_offsets = 0\<rparr> [[10, 20]]
       = (\<lparr>call_offsets = 2\<rparr>, [[10, 20], [], [10, 20]])
   \<and> fold (list_append 0) [30] [[10, 20], [], [10, 20]] ! 2 = [10, 20]
   \<and> fold (list_append 0) [30] [[10, 20], [], [10, 20]] ! 0 = [10, 20, 30]
   \<and> fold (list_append 2) [30] [[10, 20], [], [10, 20]] ! 0 = [10, 20]
   \<and> fold (list_append 2) [30] [[10, 20], [], [10, 20]] ! 2 = [10, 20, 30]"
proof -
  have valid: "call_offsets \<lparr>call_offsets = 0\<rparr> < length [[10, 20 :: int]]"
    by simp
  have copied: "MultipleSendsAnnotation_copy \<lparr>call_offsets = 0\<rparr> [[10, 20]]
       = (\<lparr>call_offsets = 2\<rparr>, [[10, 20], [], [10, 20]])"
    by (simp add: MultipleSendsAnnotation_copy_def MultipleSendsAnnotation_init_def
        copy_list_def new_list_def)
  show ?thesis
    using valid copied copy_independent [OF valid copied, where xs = "[30]"]
    by simp
qed

subsection \<open>What one call of the analysis does\<close>

lemma analyze_state_call:
  assumes "annotations state = Some a"
    and "opcode (current_instruction state)
           \<in> set [''CALL'', ''DELEGATECALL'', ''STATICCALL'', ''CALLCODE'']"
  shows "analyze_state ext state h s =
           ([], state,
            list_append (call_offsets a) (Instruction.address (current_instruction state)) h, s)"
  using assms
  by (simp add: analyze_state_def get_or_create_annotation_def get_current_instruction_def)

lemma analyze_state_terminating:
  assumes "annotations state = Some a"
    and "opcode (current_instruction state)
           \<notin> set [''CALL'', ''DELEGATECALL'', ''STATICCALL'', ''CALLCODE'']"
  shows "analyze_state ext state h s =
           (fst (scan_offsets ext state (drop 1 (h ! call_offsets a)) s), state, h,
            snd (scan_offsets ext state (drop 1 (h ! call_offsets a)) s))"
  using assms
  by (simp add: analyze_state_def get_or_create_annotation_def get_current_instruction_def
      split_beta Let_def)

lemma analyze_state_created_call:
  assumes "annotations state = None"
    and "opcode (current_instruction state)
           \<in> set [''CALL'', ''DELEGATECALL'', ''STATICCALL'', ''CALLCODE'']"
  shows "analyze_state ext state h s =
           ([], state\<lparr>annotations := Some \<lparr>call_offsets = length h\<rparr>\<rparr>,
            h @ [[Instruction.address (current_instruction state)]], s)"
  using assms
  by (simp add: analyze_state_def get_or_create_annotation_def get_current_instruction_def
      MultipleSendsAnnotation_init_def new_list_def list_append_def)

lemma analyze_state_created_terminating:
  assumes "annotations state = None"
    and "opcode (current_instruction state)
           \<notin> set [''CALL'', ''DELEGATECALL'', ''STATICCALL'', ''CALLCODE'']"
  shows "analyze_state ext state h s =
           ([], state\<lparr>annotations := Some \<lparr>call_offsets = length h\<rparr>\<rparr>, h @ [[]], s)"
  using assms
  by (simp add: analyze_state_def get_or_create_annotation_def get_current_instruction_def
      MultipleSendsAnnotation_init_def new_list_def)

lemma scan_offsets_at_most_one: "length (fst (scan_offsets ext state offs s)) \<le> 1"
  by (induction offs arbitrary: s) (auto split: prod.splits sum.splits UnsatError.splits)

lemma nth_answer_0:
  "nth_answer ext state 0 s = fst (get_transaction_sequence ext state (constraints (mstate state)) s)"
  by (simp add: nth_answer_def)

lemma nth_answer_Suc:
  "nth_answer ext state (Suc n) s =
     nth_answer ext state n (snd (get_transaction_sequence ext state (constraints (mstate state)) s))"
  by (simp add: nth_answer_def)

lemma scan_offsets_first_sat:
  assumes "k < length offs"
    and "\<forall>j<k. nth_answer ext state j s = Inl UnsatError"
    and "nth_answer ext state k s = Inr ts"
  shows "scan_offsets ext state offs s =
           ([make_issue ext state (offs ! k) ts], solver_after ext state (Suc k) s)"
  using assms
proof (induction offs arbitrary: k s)
  case Nil
  then show ?case by simp
next
  case (Cons off rest)
  obtain r s1 where q: "get_transaction_sequence ext state (constraints (mstate state)) s = (r, s1)"
    by (cases "get_transaction_sequence ext state (constraints (mstate state)) s")
  show ?case
  proof (cases k)
    case 0
    with Cons.prems q have "r = Inr ts" by (simp add: nth_answer_0)
    with q 0 show ?thesis by simp
  next
    case (Suc k')
    with Cons.prems have "nth_answer ext state 0 s = Inl UnsatError" by blast
    with q have r: "r = Inl UnsatError" by (simp add: nth_answer_0)
    have earlier: "\<forall>j<k'. nth_answer ext state j s1 = Inl UnsatError"
    proof (intro allI impI)
      fix j assume "j < k'"
      then have "Suc j < k" using Suc by simp
      with Cons.prems have "nth_answer ext state (Suc j) s = Inl UnsatError" by blast
      then show "nth_answer ext state j s1 = Inl UnsatError" using q by (simp add: nth_answer_Suc)
    qed
    have inside: "k' < length rest" using Cons.prems Suc by simp
    have sat: "nth_answer ext state k' s1 = Inr ts"
      using Cons.prems Suc q by (simp add: nth_answer_Suc)
    have "scan_offsets ext state rest s1 =
           ([make_issue ext state (rest ! k') ts], solver_after ext state (Suc k') s1)"
      using inside earlier sat by (rule Cons.IH)
    with q r Suc show ?thesis by simp
  qed
qed

lemma scan_offsets_all_unsat:
  assumes "\<forall>j<length offs. nth_answer ext state j s = Inl UnsatError"
  shows "scan_offsets ext state offs s = ([], solver_after ext state (length offs) s)"
  using assms
proof (induction offs arbitrary: s)
  case Nil
  then show ?case by simp
next
  case (Cons off rest)
  obtain r s1 where q: "get_transaction_sequence ext state (constraints (mstate state)) s = (r, s1)"
    by (cases "get_transaction_sequence ext state (constraints (mstate state)) s")
  from Cons.prems have "nth_answer ext state 0 s = Inl UnsatError" by auto
  with q have r: "r = Inl UnsatError" by (simp add: nth_answer_0)
  have "\<forall>j<length rest. nth_answer ext state j s1 = Inl UnsatError"
  proof (intro allI impI)
    fix j assume "j < length rest"
    then have "Suc j < length (off # rest)" by simp
    with Cons.prems have "nth_answer ext state (Suc j) s = Inl UnsatError" by blast
    then show "nth_answer ext state j s1 = Inl UnsatError" using q by (simp add: nth_answer_Suc)
  qed
  then have "scan_offsets ext state rest s1 = ([], solver_after ext state (length rest) s1)"
    by (rule Cons.IH)
  with q r show ?case by simp
qed

text \<open>
  C10: \<open>analyze_state\<close> leaves the state with a call-offset annotation (the one it had,
  or a new one on a list object that did not exist before). The annotation's list is the
  list it held before (the empty list for a new annotation), followed by the address of
  the current instruction when the opcode is one of \<open>CALL\<close>, \<open>DELEGATECALL\<close>,
  \<open>STATICCALL\<close>, \<open>CALLCODE\<close>, and by nothing otherwise: at \<open>RETURN\<close> and \<open>STOP\<close> the
  list is as it was. No other list object of the store changes.
\<close>

theorem analyze_state_appends_only_on_calls:
  assumes "\<forall>a. annotations state = Some a \<longrightarrow> call_offsets a < length h"
    and "analyze_state ext state h s = (found, state', h', s')"
  shows "\<exists>a'. annotations state' = Some a' \<and> call_offsets a' < length h'
      \<and> (case annotations state of
            None \<Rightarrow> call_offsets a' = length h \<and> state' = state\<lparr>annotations := Some a'\<rparr>
          | Some a \<Rightarrow> a' = a \<and> state' = state)
      \<and> h' ! call_offsets a' =
          (case annotations state of None \<Rightarrow> [] | Some a \<Rightarrow> h ! call_offsets a)
          @ (if opcode (current_instruction state)
                  \<in> set [''CALL'', ''DELEGATECALL'', ''STATICCALL'', ''CALLCODE'']
             then [Instruction.address (current_instruction state)] else [])
      \<and> (\<forall>r<length h. r \<noteq> call_offsets a' \<longrightarrow> h' ! r = h ! r)"
proof (cases "annotations state")
  case None
  show ?thesis
  proof (cases "opcode (current_instruction state)
                  \<in> set [''CALL'', ''DELEGATECALL'', ''STATICCALL'', ''CALLCODE'']")
    case True
    from analyze_state_created_call [OF None True, of ext h s] assms(2)
    have "state' = state\<lparr>annotations := Some \<lparr>call_offsets = length h\<rparr>\<rparr>"
      and "h' = h @ [[Instruction.address (current_instruction state)]]"
      by simp_all
    with None True show ?thesis by (simp add: nth_append)
  next
    case False
    from analyze_state_created_terminating [OF None False, of ext h s] assms(2)
    have "state' = state\<lparr>annotations := Some \<lparr>call_offsets = length h\<rparr>\<rparr>"
      and "h' = h @ [[]]"
      by simp_all
    with None False show ?thesis by (simp add: nth_append)
  qed
next
  case (Some a)
  with assms(1) have valid: "call_offsets a < length h" by simp
  show ?thesis
  proof (cases "opcode (current_instruction state)
                  \<in> set [''CALL'', ''DELEGATECALL'', ''STATICCALL'', ''CALLCODE'']")
    case True
    from analyze_state_call [OF Some True, of ext h s] assms(2)
    have "state' = state"
      and "h' = list_append (call_offsets a) (Instruction.address (current_instruction state)) h"
      by simp_all
    with Some True valid show ?thesis by (simp add: list_append_def)
  next
    case False
    from analyze_state_terminating [OF Some False, of ext h s] assms(2)
    have "state' = state" and "h' = h"
      by simp_all
    with Some False valid show ?thesis by simp
  qed
qed

theorem analyze_state_appends_only_on_calls_witness:
  "call_offsets \<lparr>call_offsets = 0\<rparr> < length [[10 :: int]]
   \<and> analyze_state sat_solver (scenario_state ''CALL'' 20) [[10]] 0
       = ([], scenario_state ''CALL'' 20, [[10, 20]], 0)
   \<and> analyze_state sat_solver (scenario_state ''STOP'' 30) [[10]] 0
       = ([], scenario_state ''STOP'' 30, [[10]], 0)"
proof -
  have call: "analyze_state sat_solver (scenario_state ''CALL'' 20) [[10]] 0
       = ([], scenario_state ''CALL'' 20, [[10, 20]], 0)"
    by (simp add: analyze_state_def get_or_create_annotation_def get_current_instruction_def
        scenario_state_def list_append_def)
  have stop: "analyze_state sat_solver (scenario_state ''STOP'' 30) [[10]] 0
       = ([], scenario_state ''STOP'' 30, [[10]], 0)"
    by (simp add: analyze_state_def get_or_create_annotation_def get_current_instruction_def
        scenario_state_def)
  have valid: "\<forall>a. annotations (scenario_state ''CALL'' 20) = Some a
                 \<longrightarrow> call_offsets a < length [[10 :: int]]"
    by (simp add: scenario_state_def)
  from analyze_state_appends_only_on_calls [OF valid call] call stop
  show ?thesis by simp
qed

subsection \<open>Scenarios at a terminating instruction\<close>




text \<open>
  C7: the annotation records one call only and the instruction is \<open>RETURN\<close> or \<open>STOP\<close>.
  The analysis returns no issue; it changes neither the state nor the store, and does not
  query the solver.
\<close>

theorem lone_call_no_issue:
  assumes "annotations state = Some a"
    and "call_offsets a < length h"
    and "h ! call_offsets a = [x]"
    and "opcode (current_instruction state) = ''RETURN''
         \<or> opcode (current_instruction state) = ''STOP''"
  shows "analyze_state ext state h s = ([], state, h, s)"
proof -
  have "opcode (current_instruction state)
          \<notin> set [''CALL'', ''DELEGATECALL'', ''STATICCALL'', ''CALLCODE'']"
    using assms(4) by auto
  then show ?thesis
    using assms(1,3) by (simp add: analyze_state_terminating)
qed

theorem lone_call_no_issue_witness:
  "annotations (scenario_state ''STOP'' 20) = Some \<lparr>call_offsets = 0\<rparr>
   \<and> call_offsets \<lparr>call_offsets = 0\<rparr> < length [[10 :: int]]
   \<and> analyze_state sat_solver (scenario_state ''STOP'' 20) [[10]] 0
       = ([], scenario_state ''STOP'' 20, [[10]], 0)"
proof -
  have ann: "annotations (scenario_state ''STOP'' 20) = Some \<lparr>call_offsets = 0\<rparr>"
    by (simp add: scenario_state_def)
  have valid: "call_offsets \<lparr>call_offsets = 0\<rparr> < length [[10 :: int]]"
    by simp
  have offs: "[[10 :: int]] ! call_offsets \<lparr>call_offsets = 0\<rparr> = [10]"
    by simp
  have stop: "opcode (current_instruction (scenario_state ''STOP'' 20)) = ''RETURN''
         \<or> opcode (current_instruction (scenario_state ''STOP'' 20)) = ''STOP''"
    by (simp add: scenario_state_def)
  from lone_call_no_issue [OF ann valid offs stop, where ext = sat_solver and s = 0] ann valid
  show ?thesis by simp
qed

text \<open>
  C5: at \<open>RETURN\<close> or \<open>STOP\<close> the analysis returns at most one issue. If the solver
  raises \<open>UnsatError\<close> on the first \<open>k\<close> queries and answers query \<open>k\<close> with \<open>ts\<close>, the
  result is the one issue at offset number \<open>k\<close> after the first recorded call, with \<open>ts\<close>,
  and the solver has been queried \<open>k + 1\<close> times: the infeasible offsets were skipped and
  the scan stopped at the first success. If the solver raises \<open>UnsatError\<close> for every
  offset after the first, the analysis returns the empty list, after one query for each.
\<close>

theorem scan_skips_unsat_and_stops_at_first_sat:
  assumes "annotations state = Some a"
    and "call_offsets a < length h"
    and "opcode (current_instruction state) = ''RETURN''
         \<or> opcode (current_instruction state) = ''STOP''"
  shows "length (fst (analyze_state ext state h s)) \<le> 1
       \<and> (\<forall>k ts. k < length (drop 1 (h ! call_offsets a))
                 \<and> (\<forall>j<k. nth_answer ext state j s = Inl UnsatError)
                 \<and> nth_answer ext state k s = Inr ts
             \<longrightarrow> analyze_state ext state h s =
                   ([make_issue ext state (drop 1 (h ! call_offsets a) ! k) ts], state, h,
                    solver_after ext state (Suc k) s))
       \<and> ((\<forall>j<length (drop 1 (h ! call_offsets a)). nth_answer ext state j s = Inl UnsatError)
             \<longrightarrow> analyze_state ext state h s =
                   ([], state, h,
                    solver_after ext state (length (drop 1 (h ! call_offsets a))) s))"
proof -
  have "opcode (current_instruction state)
          \<notin> set [''CALL'', ''DELEGATECALL'', ''STATICCALL'', ''CALLCODE'']"
    using assms(3) by auto
  then have run: "analyze_state ext state h s =
           (fst (scan_offsets ext state (drop 1 (h ! call_offsets a)) s), state, h,
            snd (scan_offsets ext state (drop 1 (h ! call_offsets a)) s))"
    using assms(1) by (rule analyze_state_terminating [rotated])
  have one: "length (fst (analyze_state ext state h s)) \<le> 1"
    using scan_offsets_at_most_one [of ext state "drop 1 (h ! call_offsets a)" s]
    by (simp add: run)
  have first: "analyze_state ext state h s =
                   ([make_issue ext state (drop 1 (h ! call_offsets a) ! k) ts], state, h,
                    solver_after ext state (Suc k) s)"
    if "k < length (drop 1 (h ! call_offsets a))"
      and "\<forall>j<k. nth_answer ext state j s = Inl UnsatError"
      and "nth_answer ext state k s = Inr ts" for k ts
    using scan_offsets_first_sat [OF that] by (simp add: run)
  have none: "analyze_state ext state h s =
                   ([], state, h,
                    solver_after ext state (length (drop 1 (h ! call_offsets a))) s)"
    if "\<forall>j<length (drop 1 (h ! call_offsets a)). nth_answer ext state j s = Inl UnsatError"
    using scan_offsets_all_unsat [OF that] by (simp add: run)
  from one first none show ?thesis by blast
qed

theorem scan_skips_unsat_and_stops_at_first_sat_witness:
  "annotations (scenario_state ''STOP'' 40) = Some \<lparr>call_offsets = 0\<rparr>
   \<and> call_offsets \<lparr>call_offsets = 0\<rparr> < length [[10, 20, 30 :: int]]
   \<and> nth_answer unsat_once_solver (scenario_state ''STOP'' 40) 0 0 = Inl UnsatError
   \<and> nth_answer unsat_once_solver (scenario_state ''STOP'' 40) 1 0 = Inr [''tx'']
   \<and> analyze_state unsat_once_solver (scenario_state ''STOP'' 40) [[10, 20, 30]] 0
       = ([make_issue unsat_once_solver (scenario_state ''STOP'' 40) 30 [''tx'']],
          scenario_state ''STOP'' 40, [[10, 20, 30]], 2)"
proof -
  have ann: "annotations (scenario_state ''STOP'' 40) = Some \<lparr>call_offsets = 0\<rparr>"
    by (simp add: scenario_state_def)
  have valid: "call_offsets \<lparr>call_offsets = 0\<rparr> < length [[10, 20, 30 :: int]]"
    by simp
  have stop: "opcode (current_instruction (scenario_state ''STOP'' 40)) = ''RETURN''
         \<or> opcode (current_instruction (scenario_state ''STOP'' 40)) = ''STOP''"
    by (simp add: scenario_state_def)
  have a0: "nth_answer unsat_once_solver (scenario_state ''STOP'' 40) 0 0 = Inl UnsatError"
    by (simp add: nth_answer_def unsat_once_solver_def)
  have a1: "nth_answer unsat_once_solver (scenario_state ''STOP'' 40) 1 0 = Inr [''tx'']"
    by (simp add: nth_answer_def unsat_once_solver_def)
  have s2: "solver_after unsat_once_solver (scenario_state ''STOP'' 40) (Suc 1) 0 = 2"
    by (simp add: unsat_once_solver_def)
  have "analyze_state unsat_once_solver (scenario_state ''STOP'' 40) [[10, 20, 30]] 0
       = ([make_issue unsat_once_solver (scenario_state ''STOP'' 40)
             (drop 1 ([[10, 20, 30]] ! call_offsets \<lparr>call_offsets = 0\<rparr>) ! 1) [''tx'']],
          scenario_state ''STOP'' 40, [[10, 20, 30]],
          solver_after unsat_once_solver (scenario_state ''STOP'' 40) (Suc 1) 0)"
    using scan_skips_unsat_and_stops_at_first_sat
      [OF ann valid stop, where ext = unsat_once_solver and s = 0,
       THEN conjunct2, THEN conjunct1, rule_format, where k = 1 and ts = "[''tx'']"]
      a0 a1
    by simp
  then show ?thesis
    using ann valid a0 a1 s2 by simp
qed

subsection \<open>The address cache\<close>

text \<open>
  C1: two paths reach a terminating instruction, each with the calls at \<open>10\<close> and \<open>20\<close>
  recorded and satisfiable constraints. The first \<open>execute\<close> puts \<open>20\<close>, the address of the
  issue, into the cache; the second asks the cache for the address of the terminating
  instruction (\<open>30\<close> again, or \<open>40\<close>), does not find it, and appends a second issue at
  address \<open>20\<close>.
\<close>

theorem execute_reports_one_address_twice:
  "map address (issues (fst
      (execute sat_solver
         (fst (execute sat_solver MultipleSendsModule_init
                 (scenario_state ''STOP'' 30) [[10, 20]] 0))
         (scenario_state ''STOP'' 30) [[10, 20]] 1))) = [20, 20]
   \<and> map address (issues (fst
      (execute sat_solver
         (fst (execute sat_solver MultipleSendsModule_init
                 (scenario_state ''STOP'' 30) [[10, 20]] 0))
         (scenario_state ''RETURN'' 40) [[10, 20]] 1))) = [20, 20]
   \<and> cache (fst (execute sat_solver MultipleSendsModule_init
                 (scenario_state ''STOP'' 30) [[10, 20]] 0)) = {20}"
  by (simp add: execute_def analyze_state_def get_or_create_annotation_def
      get_current_instruction_def scenario_state_def sat_solver_def
      MultipleSendsModule_init_def make_issue_def)

end
